theory Spec2Isabelle
  imports Main "HOL-Library.Sublist"
begin

section \<open>Python string primitives used by \<^verbatim>\<open>tools/validate_chaos_pr.py\<close>\<close>

text \<open>
  A Python \<^verbatim>\<open>str\<close> is modelled as a \<^typ>\<open>string\<close>; every \<^typ>\<open>char\<close> stands for one
  code point below 256. The character classes below are Python's, restricted to that
  range.
\<close>

definition startswith :: "string \<Rightarrow> string \<Rightarrow> bool" where
  \<comment> \<open>\<^verbatim>\<open>s.startswith(p)\<close>\<close>
  "startswith s p = prefix p s"

fun str_find :: "string \<Rightarrow> string \<Rightarrow> int" where
  \<comment> \<open>\<^verbatim>\<open>s.find(p)\<close>: the lowest index at which \<open>p\<close> occurs in \<open>s\<close>, or \<open>-1\<close>\<close>
  "str_find [] p = (if p = [] then 0 else - 1)"
| "str_find (c # cs) p =
     (if prefix p (c # cs) then 0
      else (let r = str_find cs p in if r = - 1 then - 1 else r + 1))"

definition slice :: "string \<Rightarrow> int \<Rightarrow> int \<Rightarrow> string" where
  \<comment> \<open>\<^verbatim>\<open>s[a:b]\<close> for indices \<open>a, b \<ge> 0\<close>; the result is empty when \<open>b \<le> a\<close>\<close>
  "slice s a b = drop (nat a) (take (nat b) s)"

definition slice_to :: "string \<Rightarrow> int \<Rightarrow> string" where
  \<comment> \<open>\<^verbatim>\<open>s[:b]\<close> for \<open>b \<ge> 0\<close>\<close>
  "slice_to s b = take (nat b) s"

definition slice_from :: "string \<Rightarrow> int \<Rightarrow> string" where
  \<comment> \<open>\<^verbatim>\<open>s[a:]\<close> for \<open>a \<ge> 0\<close>\<close>
  "slice_from s a = drop (nat a) s"

text \<open>
  \<^verbatim>\<open>str.isspace\<close> and the regular-expression class \<^verbatim>\<open>\s\<close> of a \<^verbatim>\<open>str\<close> pattern agree.
  Below 256 they hold of TAB, LF, VT, FF, CR, the separators 0x1C to 0x1F, the space,
  NEL (0x85) and the no-break space (0xA0).
\<close>

definition isspace :: "char \<Rightarrow> bool" where
  "isspace c = (c \<in> {CHR 0x09, CHR 0x0A, CHR 0x0B, CHR 0x0C, CHR 0x0D,
                      CHR 0x1C, CHR 0x1D, CHR 0x1E, CHR 0x1F, CHR 0x20,
                      CHR 0x85, CHR 0xA0})"

text \<open>
  \<^verbatim>\<open>str.lower\<close> below 256: \<^verbatim>\<open>A-Z\<close> and the Latin-1 capitals 0xC0 to 0xDE (without the
  multiplication sign 0xD7) move up by 32; every other character stays.
\<close>

definition lower_char :: "char \<Rightarrow> char" where
  "lower_char c =
     (let n = (of_char c :: nat)
      in if (65 \<le> n \<and> n \<le> 90) \<or> (192 \<le> n \<and> n \<le> 222 \<and> n \<noteq> 215)
         then char_of (n + 32) else c)"

definition lower :: "string \<Rightarrow> string" where
  "lower s = map lower_char s"

definition lstrip :: "string \<Rightarrow> string" where
  "lstrip s = dropWhile isspace s"

definition rstrip :: "string \<Rightarrow> string" where
  "rstrip s = rev (dropWhile isspace (rev s))"

definition strip :: "string \<Rightarrow> string" where
  "strip s = rstrip (lstrip s)"

text \<open>\<^verbatim>\<open>s.split()\<close>: the maximal runs of non-whitespace characters.\<close>

fun split_ws_from :: "string \<Rightarrow> string \<Rightarrow> string list" where
  "split_ws_from cur [] = (if cur = [] then [] else [cur])"
| "split_ws_from cur (c # cs) =
     (if isspace c
      then (if cur = [] then split_ws_from [] cs else cur # split_ws_from [] cs)
      else split_ws_from (cur @ [c]) cs)"

definition split_ws :: "string \<Rightarrow> string list" where
  "split_ws s = split_ws_from [] s"

text \<open>\<^verbatim>\<open>s.split(d)\<close> for a one-character separator: always at least one piece.\<close>

fun split_char :: "char \<Rightarrow> string \<Rightarrow> string list" where
  "split_char d [] = [[]]"
| "split_char d (c # cs) =
     (if c = d then [] # split_char d cs
      else (case split_char d cs of
              [] \<Rightarrow> [[c]]
            | p # ps \<Rightarrow> (c # p) # ps))"

text \<open>\<^verbatim>\<open>sep.join(xs)\<close>\<close>

fun join :: "string \<Rightarrow> string list \<Rightarrow> string" where
  "join sep [] = []"
| "join sep [x] = x"
| "join sep (x # y # ys) = x @ sep @ join sep (y # ys)"

text \<open>Code-point order on strings, and \<^verbatim>\<open>sorted\<close> on a list of strings.\<close>

fun str_le :: "string \<Rightarrow> string \<Rightarrow> bool" where
  "str_le [] t = True"
| "str_le (a # s) [] = False"
| "str_le (a # s) (b # t) =
     (if a = b then str_le s t else (of_char a :: nat) < of_char b)"

fun insert_sorted :: "string \<Rightarrow> string list \<Rightarrow> string list" where
  "insert_sorted x [] = [x]"
| "insert_sorted x (y # ys) =
     (if str_le x y then x # y # ys else y # insert_sorted x ys)"

definition sorted_strs :: "string list \<Rightarrow> string list" where
  "sorted_strs xs = foldr insert_sorted xs []"

section \<open>Constants\<close>

text \<open>The set \<^verbatim>\<open>ALLOWED_CHANGED_FILES\<close>, as the list of its two elements.\<close>

definition ALLOWED_CHANGED_FILES :: "string list" where
  "ALLOWED_CHANGED_FILES = [''chaos-board/index.html'', ''chaos-board/assets/chaos.css'']"

definition CHAOS_START :: string where
  "CHAOS_START = ''<!-- CHAOS_START -->''"

definition CHAOS_END :: string where
  "CHAOS_END = ''<!-- CHAOS_END -->''"

section \<open>Errors\<close>

datatype error =
    ValueError string   \<comment> \<open>raised by \<open>split_chaos_region\<close>, caught in \<open>validate\<close>\<close>
  | FetchError          \<comment> \<open>a collaborator (git, file read) raised; never caught\<close>

section \<open>Region splitter\<close>

definition split_chaos_region :: "string \<Rightarrow> error + (string \<times> string \<times> string)" where
  "split_chaos_region html =
     (let start = str_find html CHAOS_START;
          end = str_find html CHAOS_END
      in if start = - 1 \<or> end = - 1 \<or> end \<le> start
         then Inl (ValueError ''Missing or misordered chaos markers'')
         else
           (let before = slice_to html (start + int (length CHAOS_START));
                region = slice html (start + int (length CHAOS_START)) end;
                after = slice_from html end
            in Inr (before, region, after)))"

section \<open>HTML safety scanner\<close>

text \<open>
  The attribute dictionary \<^verbatim>\<open>attr_map\<close> keeps insertion order, and a key that comes
  again keeps its place and takes the later value. An attribute without a value reaches
  the handler as \<^verbatim>\<open>None\<close> and is stored as the empty string (\<^verbatim>\<open>v or ""\<close>).
\<close>

type_synonym attrs = "(string \<times> string option) list"

type_synonym dict = "(string \<times> string) list"

fun dict_set :: "dict \<Rightarrow> string \<Rightarrow> string \<Rightarrow> dict" where
  "dict_set [] k v = [(k, v)]"
| "dict_set ((k', v') # d) k v =
     (if k' = k then (k, v) # d else (k', v') # dict_set d k v)"

definition dict_get :: "dict \<Rightarrow> string \<Rightarrow> string \<Rightarrow> string" where
  \<comment> \<open>\<^verbatim>\<open>d.get(k, default)\<close>\<close>
  "dict_get d k dflt = (case map_of d k of None \<Rightarrow> dflt | Some v \<Rightarrow> v)"

definition attr_map_of :: "attrs \<Rightarrow> dict" where
  \<comment> \<open>\<^verbatim>\<open>{k.lower(): (v or "") for k, v in attrs}\<close>\<close>
  "attr_map_of as =
     foldl (\<lambda>d (k, v). dict_set d (lower k) (case v of None \<Rightarrow> [] | Some x \<Rightarrow> x)) [] as"

text \<open>
  \<open>handle_starttag tag as\<close> is the list of messages that one call of the handler appends
  to \<^verbatim>\<open>self.errors\<close>, in the order of the appends.
\<close>

definition event_handler_errors :: "string \<Rightarrow> dict \<Rightarrow> string list" where
  "event_handler_errors tag attr_map =
     concat (map (\<lambda>k. if startswith k ''on''
                       then [''Inline event handler attribute not allowed: '' @ tag @ ''['' @ k @ '']'']
                       else [])
                 (map fst attr_map))"

definition anchor_errors :: "dict \<Rightarrow> string list" where
  \<open>anchor_errors attr_map =
     (let href = dict_get attr_map ''href'' ''''
      in (if href \<noteq> []
          then (let href_l = lower (strip href)
                in (if startswith href_l ''javascript:''
                    then [''Links must not use javascript: URLs''] else []) @
                   (if \<not> (startswith href_l ''http://'' \<or> startswith href_l ''https://''
                           \<or> startswith href_l ''#'')
                    then [''Links must be http(s) or fragment only: href='' @ href] else []))
          else []) @
         (if startswith (lower (strip href)) ''http://''
             \<or> startswith (lower (strip href)) ''https://''
          then (if map_of attr_map ''target'' \<noteq> Some ''_blank''
                then [''External links must include target="_blank"''] else []) @
               (let rel = lower (join '' '' (split_ws (dict_get attr_map ''rel'' '''')));
                    required = {''nofollow'', ''noopener'', ''noreferrer''};
                    present = set (split_ws rel)
                in if \<not> required \<subseteq> present
                   then [''External links must include rel="nofollow noopener noreferrer"'']
                   else [])
          else []))\<close>

definition img_errors :: "dict \<Rightarrow> string list" where
  "img_errors attr_map =
     (let src = dict_get attr_map ''src'' ''''
      in (if src \<noteq> [] \<and> \<not> startswith (lower (strip src)) ''https://''
          then [''Images must use https:// sources''] else []) @
         (if map_of attr_map ''alt'' = None \<or> dict_get attr_map ''alt'' '''' = []
          then [''Images must include non-empty alt attribute''] else []))"

definition handle_starttag :: "string \<Rightarrow> attrs \<Rightarrow> string list" where
  "handle_starttag tag as =
     (let attr_map = attr_map_of as
      in event_handler_errors tag attr_map @
         (if lower tag = ''a'' then anchor_errors attr_map else []) @
         (if lower tag = ''img'' then img_errors attr_map else []))"

text \<open>
  \<^verbatim>\<open>HTMLParser.feed\<close> belongs to the standard library: the tokenizer is a parameter that
  gives the start-tag events of a text (name and attribute list, in document order).
  \<open>feed\<close> runs the handler over them, starting from the empty \<^verbatim>\<open>self.errors\<close>.
\<close>

type_synonym tokenizer = "string \<Rightarrow> (string \<times> attrs) list"

definition feed :: "tokenizer \<Rightarrow> string \<Rightarrow> string list" where
  "feed starttags html = concat (map (\<lambda>(tag, as). handle_starttag tag as) (starttags html))"

section \<open>CSS scope checker\<close>

text \<open>
  \<^verbatim>\<open>re.sub(r"/\*.*?\*/", "", css, flags=re.DOTALL)\<close>: scanning from the left, a \<^verbatim>\<open>/*\<close> that
  has a \<^verbatim>\<open>*/\<close> somewhere behind it is deleted up to and including the first such \<^verbatim>\<open>*/\<close>.
  \<open>comment_end cs\<close> is the number of characters of \<open>cs\<close> up to and including the first
  \<^verbatim>\<open>*/\<close>.
\<close>

fun comment_end :: "string \<Rightarrow> nat option" where
  "comment_end (a # b # cs) =
     (if a = CHR ''*'' \<and> b = CHR ''/'' then Some 2
      else map_option Suc (comment_end (b # cs)))"
| "comment_end cs = None"

fun strip_comments :: "string \<Rightarrow> string" where
  "strip_comments (a # b # cs) =
     (if a = CHR ''/'' \<and> b = CHR ''*''
      then (case comment_end cs of
              Some n \<Rightarrow> strip_comments (drop n cs)
            | None \<Rightarrow> a # strip_comments (b # cs))
      else a # strip_comments (b # cs))"
| "strip_comments cs = cs"

text \<open>
  \<^verbatim>\<open>re.sub(r"'([^'\\]|\\.)*'", "''", css)\<close> and its double-quote twin. After the opening
  quote \<open>q\<close> the body is a run of items, each one character other than \<open>q\<close> and the
  backslash, or a backslash with one character other than LF behind it (\<^verbatim>\<open>.\<close> without
  \<^verbatim>\<open>DOTALL\<close>). Which item starts at a position is decided by the character there and no
  item starts with \<open>q\<close>, so the pattern matches exactly when the longest run of items is
  followed by \<open>q\<close>. \<open>string_end q cs\<close> is the number of characters of \<open>cs\<close> up to and
  including that closing quote.
\<close>

fun string_end :: "char \<Rightarrow> string \<Rightarrow> nat option" where
  "string_end q [] = None"
| "string_end q (c # cs) =
     (if c = q then Some 1
      else if c = CHR 0x5C
      then (case cs of
              [] \<Rightarrow> None
            | d # ds \<Rightarrow> if d = CHR 0x0A then None
                       else map_option (\<lambda>n. n + 2) (string_end q ds))
      else map_option Suc (string_end q cs))"

fun strip_strings :: "char \<Rightarrow> string \<Rightarrow> string" where
  "strip_strings q [] = []"
| "strip_strings q (c # cs) =
     (if c = q
      then (case string_end q cs of
              Some n \<Rightarrow> q # q # strip_strings q (drop n cs)
            | None \<Rightarrow> c # strip_strings q cs)
      else c # strip_strings q cs)"

text \<open>
  \<^verbatim>\<open>re.split(r"\s+|>\s*|\+\s*|~\s*", sel)\<close>: a whitespace character or one of \<^verbatim>\<open>> + ~\<close>
  starts a separator, which takes all the whitespace behind it. \<open>cur\<close> is the piece read
  so far.
\<close>

function re_split_combinators :: "string \<Rightarrow> string \<Rightarrow> string list" where
  "re_split_combinators cur [] = [cur]"
| "re_split_combinators cur (c # cs) =
     (if isspace c \<or> c = CHR ''>'' \<or> c = CHR ''+'' \<or> c = CHR ''~''
      then cur # re_split_combinators [] (dropWhile isspace cs)
      else re_split_combinators (cur @ [c]) cs)"
  by pat_completeness auto
termination
  by (relation "measure (\<lambda>(cur, s). length s)")
     (auto simp: length_dropWhile_le less_Suc_eq_le)

text \<open>\<^verbatim>\<open>re.match(r"^[a-zA-Z][a-zA-Z0-9-]*", t)\<close>, giving \<^verbatim>\<open>m.group(0)\<close>.\<close>

definition is_alpha :: "char \<Rightarrow> bool" where
  "is_alpha c = (let n = (of_char c :: nat) in (65 \<le> n \<and> n \<le> 90) \<or> (97 \<le> n \<and> n \<le> 122))"

definition is_digit :: "char \<Rightarrow> bool" where
  "is_digit c = (let n = (of_char c :: nat) in 48 \<le> n \<and> n \<le> 57)"

definition match_ident :: "string \<Rightarrow> string option" where
  "match_ident t =
     (case t of
        [] \<Rightarrow> None
      | c # cs \<Rightarrow>
          if is_alpha c
          then Some (c # takeWhile (\<lambda>d. is_alpha d \<or> is_digit d \<or> d = CHR ''-'') cs)
          else None)"

text \<open>The loop over the tokens of one selector; \<^verbatim>\<open>break\<close> ends it at the first message.\<close>

fun check_tokens :: "string \<Rightarrow> string list \<Rightarrow> string list" where
  "check_tokens sel [] = []"
| "check_tokens sel (t0 # ts) =
     (let t = strip t0
      in if t = [] then check_tokens sel ts
         else if t \<in> {''*'', ''html'', ''body''}
         then [''Bare element selector not allowed in chaos.css: '' @ sel]
         else (case match_ident t of
                 Some m \<Rightarrow>
                   if \<not> (startswith t ''.'' \<or> startswith t ''#'' \<or> startswith t '':''
                          \<or> startswith t ''['')
                   then (if m \<noteq> ''chaos-region''
                         then [''Bare element selector not allowed in chaos.css: '' @ sel]
                         else check_tokens sel ts)
                   else check_tokens sel ts
               | None \<Rightarrow> check_tokens sel ts))"

text \<open>The body of the loop over the selectors of one selector list.\<close>

definition check_selector :: "string \<Rightarrow> string list" where
  "check_selector sel =
     (if \<not> startswith sel ''.chaos-region''
      then [''All selectors must start with .chaos-region: '' @ sel]
      else check_tokens sel (re_split_combinators [] sel))"

text \<open>The body of the loop over the blocks.\<close>

definition check_block :: "string \<Rightarrow> string list" where
  "check_block block =
     (let selector_part = strip (last (split_char CHR ''}'' block))
      in if selector_part = [] then []
         else if startswith (lstrip selector_part) ''@'' then []
         else (let selectors = filter (\<lambda>s. s \<noteq> [])
                                 (map strip (split_char CHR '','' selector_part))
               in concat (map check_selector selectors)))"

definition preprocess :: "string \<Rightarrow> string" where
  "preprocess css = strip_strings CHR 0x22 (strip_strings CHR 0x27 (strip_comments css))"

definition validate_css_scoping :: "string \<Rightarrow> string list" where
  "validate_css_scoping css =
     concat (map check_block (butlast (split_char CHR ''{'' (preprocess css))))"

section \<open>Change-set validator\<close>

record ValidationResult =
  ok :: bool
  errors :: "string list"

text \<open>
  The collaborators of \<open>validate\<close>, as functions that give \<open>None\<close> where the Python
  raises (a failing git call, a file that cannot be read), and the tokenizer behind
  \<^verbatim>\<open>parser.feed\<close>.
\<close>

record env =
  changed_files :: "string \<Rightarrow> string list option"
  read_file_at_ref :: "string \<Rightarrow> string \<Rightarrow> string option"
  read_worktree :: "string \<Rightarrow> string option"
  starttags :: tokenizer

definition allow_list_errors :: "string list \<Rightarrow> string list" where
  "allow_list_errors files =
     (let illegal = filter (\<lambda>f. f \<notin> set ALLOWED_CHANGED_FILES) files
      in if illegal \<noteq> []
         then [''Only these files may change: '' @ join '', '' (sorted_strs ALLOWED_CHANGED_FILES),
               ''Illegal changed files: '' @ join '', '' illegal]
         else [])"

text \<open>
  The two splits stand in one \<^verbatim>\<open>try\<close>: the first \<^verbatim>\<open>ValueError\<close> is caught and its text
  appended; the \<^verbatim>\<open>else\<close> branch runs when both splits return.
\<close>

definition region_errors :: "tokenizer \<Rightarrow> string \<Rightarrow> string \<Rightarrow> error + string list" where
  "region_errors tok base_html head_html =
     (case split_chaos_region base_html of
        Inl (ValueError e) \<Rightarrow> Inr [e]
      | Inl FetchError \<Rightarrow> Inl FetchError
      | Inr (base_before, base_region, base_after) \<Rightarrow>
          (case split_chaos_region head_html of
             Inl (ValueError e) \<Rightarrow> Inr [e]
           | Inl FetchError \<Rightarrow> Inl FetchError
           | Inr (head_before, head_region, head_after) \<Rightarrow>
               Inr ((if base_before \<noteq> head_before \<or> base_after \<noteq> head_after
                     then [''index.html may only change content between CHAOS_START/CHAOS_END markers'']
                     else []) @
                    feed tok head_region)))"

definition html_errors :: "env \<Rightarrow> string \<Rightarrow> string list \<Rightarrow> error + string list" where
  "html_errors e base_ref files =
     (if ''chaos-board/index.html'' \<in> set files
      then (case read_file_at_ref e (''origin/'' @ base_ref) ''chaos-board/index.html'' of
              None \<Rightarrow> Inl FetchError
            | Some base_html \<Rightarrow>
                (case read_worktree e ''chaos-board/index.html'' of
                   None \<Rightarrow> Inl FetchError
                 | Some head_html \<Rightarrow> region_errors (starttags e) base_html head_html))
      else Inr [])"

definition css_errors :: "env \<Rightarrow> string list \<Rightarrow> error + string list" where
  "css_errors e files =
     (if ''chaos-board/assets/chaos.css'' \<in> set files
      then (case read_worktree e ''chaos-board/assets/chaos.css'' of
              None \<Rightarrow> Inl FetchError
            | Some css \<Rightarrow> Inr (validate_css_scoping css))
      else Inr [])"

definition validate :: "env \<Rightarrow> string \<Rightarrow> error + ValidationResult" where
  "validate e base_ref =
     (case changed_files e base_ref of
        None \<Rightarrow> Inl FetchError
      | Some files \<Rightarrow>
          (case html_errors e base_ref files of
             Inl x \<Rightarrow> Inl x
           | Inr herrs \<Rightarrow>
               (case css_errors e files of
                  Inl x \<Rightarrow> Inl x
                | Inr cerrs \<Rightarrow>
                    (let errs = allow_list_errors files @ herrs @ cerrs
                     in Inr \<lparr>ok = (length errs = 0), errors = errs\<rparr>))))"

section \<open>Specification vocabulary\<close>

text \<open>
  The offset of the first occurrence of \<open>p\<close> in \<open>s\<close>, said without \<open>str_find\<close>: \<open>p\<close> occurs
  at \<open>i\<close> and at no smaller offset.
\<close>

definition first_offset :: "string \<Rightarrow> string \<Rightarrow> nat \<Rightarrow> bool" where
  "first_offset s p i = (prefix p (drop i s) \<and> (\<forall>j<i. \<not> prefix p (drop j s)))"

text \<open>
  The body of a string literal quoted with \<open>q\<close>, as the two patterns read it: no bare
  \<open>q\<close>, and every backslash escapes one following character other than LF.
\<close>

fun string_body :: "char \<Rightarrow> string \<Rightarrow> bool" where
  "string_body q [] = True"
| "string_body q (c # cs) =
     (if c = q then False
      else if c = CHR 0x5C
      then (case cs of [] \<Rightarrow> False | d # ds \<Rightarrow> d \<noteq> CHR 0x0A \<and> string_body q ds)
      else string_body q cs)"

section \<open>Evaluation of the string primitives\<close>

lemmas py_eval =
  startswith_def lower_def lower_char_def char_of_def bit_Suc_0_iff
  strip_def lstrip_def rstrip_def isspace_def split_ws_def dict_get_def attr_map_of_def
  is_alpha_def is_digit_def match_ident_def

section \<open>Facts about \<open>str_find\<close>\<close>

lemma str_find_range: "str_find s p = - 1 \<or> 0 \<le> str_find s p"
  by (induction s) (auto simp: Let_def)

lemma str_find_hit:
  "0 \<le> str_find s p \<Longrightarrow> prefix p (drop (nat (str_find s p)) s)"
proof (induction s)
  case Nil
  then show ?case by (simp split: if_splits)
next
  case (Cons c cs)
  show ?case
  proof (cases "prefix p (c # cs)")
    case True
    then show ?thesis by simp
  next
    case False
    with Cons.prems have nz: "str_find cs p \<noteq> - 1"
      by (auto simp: Let_def split: if_splits)
    with str_find_range [of cs p] have ge: "0 \<le> str_find cs p" by auto
    from False nz have eq: "str_find (c # cs) p = str_find cs p + 1"
      by (simp add: Let_def)
    from ge have "nat (str_find cs p + 1) = Suc (nat (str_find cs p))" by simp
    with eq Cons.IH [OF ge] show ?thesis by simp
  qed
qed

lemma str_find_least:
  "0 \<le> str_find s p \<Longrightarrow> j < nat (str_find s p) \<Longrightarrow> \<not> prefix p (drop j s)"
proof (induction s arbitrary: j)
  case Nil
  then show ?case by (simp split: if_splits)
next
  case (Cons c cs)
  show ?case
  proof (cases "prefix p (c # cs)")
    case True
    with Cons.prems show ?thesis by simp
  next
    case False
    with Cons.prems have nz: "str_find cs p \<noteq> - 1"
      by (auto simp: Let_def split: if_splits)
    with str_find_range [of cs p] have ge: "0 \<le> str_find cs p" by auto
    from False nz have eq: "str_find (c # cs) p = str_find cs p + 1"
      by (simp add: Let_def)
    show ?thesis
    proof (cases j)
      case 0
      with False show ?thesis by simp
    next
      case (Suc k)
      with Cons.prems(2) eq ge have "k < nat (str_find cs p)" by simp
      from Cons.IH [OF ge this] Suc show ?thesis by simp
    qed
  qed
qed

lemma str_find_miss: "str_find s p = - 1 \<longleftrightarrow> \<not> sublist p s"
proof (induction s)
  case Nil
  then show ?case by simp
next
  case (Cons c cs)
  from str_find_range [of cs p] have "str_find cs p + 1 \<noteq> - 1" by auto
  with Cons show ?case
    by (auto simp: Let_def sublist_Cons_right)
qed


section \<open>The region splitter\<close>

lemma str_find_first_offset:
  assumes "sublist p s"
  shows "first_offset s p (nat (str_find s p))"
proof -
  from assms have "str_find s p \<noteq> - 1" by (simp add: str_find_miss)
  with str_find_range [of s p] have "0 \<le> str_find s p" by auto
  then show ?thesis
    unfolding first_offset_def using str_find_hit str_find_least by blast
qed

lemma first_offset_unique:
  "first_offset s p i \<Longrightarrow> first_offset s p j \<Longrightarrow> i = j"
  unfolding first_offset_def by (meson nat_neq_iff)

lemma start_marker_no_inner_lt: "CHR ''<'' \<notin> set (drop 1 CHAOS_START)"
  by (simp add: CHAOS_START_def)

lemma markers_apart:
  assumes ge: "0 \<le> str_find html CHAOS_START"
    and lt: "str_find html CHAOS_START < str_find html CHAOS_END"
  shows "str_find html CHAOS_START + int (length CHAOS_START) \<le> str_find html CHAOS_END"
proof (rule ccontr)
  assume "\<not> ?thesis"
  define s where "s = nat (str_find html CHAOS_START)"
  define e where "e = nat (str_find html CHAOS_END)"
  define k where "k = e - s"
  from ge lt \<open>\<not> ?thesis\<close> have k: "1 \<le> k" "k < length CHAOS_START" and e: "e = s + k"
    by (auto simp: k_def s_def e_def)
  from str_find_hit [OF ge] obtain rest where r: "drop s html = CHAOS_START @ rest"
    by (auto simp: prefix_def s_def)
  from ge lt have "0 \<le> str_find html CHAOS_END" by simp
  from str_find_hit [OF this] have pe: "prefix CHAOS_END (drop e html)"
    by (simp add: e_def)
  have "drop e html = drop k (drop s html)"
    by (simp add: e add.commute)
  also have "\<dots> = drop k CHAOS_START @ rest"
    using r k by simp
  also have "drop k CHAOS_START = CHAOS_START ! k # drop (Suc k) CHAOS_START"
    using k by (simp add: Cons_nth_drop_Suc)
  finally have "CHAOS_START ! k = CHR ''<''"
    using pe by (simp add: CHAOS_END_def)
  moreover have "CHAOS_START ! k \<in> set (drop 1 CHAOS_START)"
  proof -
    have "CHAOS_START ! k = drop 1 CHAOS_START ! (k - 1)" using k by simp
    moreover have "k - 1 < length (drop 1 CHAOS_START)" using k by simp
    ultimately show ?thesis by (metis nth_mem)
  qed
  ultimately show False using start_marker_no_inner_lt by simp
qed

lemma split_chaos_region_Inr:
  assumes "split_chaos_region html = Inr (before, region, after)"
  shows "0 \<le> str_find html CHAOS_START"
    and "str_find html CHAOS_START < str_find html CHAOS_END"
    and "before = take (nat (str_find html CHAOS_START) + length CHAOS_START) html"
    and "region = drop (nat (str_find html CHAOS_START) + length CHAOS_START)
                    (take (nat (str_find html CHAOS_END)) html)"
    and "after = drop (nat (str_find html CHAOS_END)) html"
proof -
  from assms have ne: "str_find html CHAOS_START \<noteq> - 1"
    and lt: "str_find html CHAOS_START < str_find html CHAOS_END"
    by (auto simp: split_chaos_region_def Let_def split: if_splits)
  from ne str_find_range [of html CHAOS_START] show ge: "0 \<le> str_find html CHAOS_START"
    by auto
  show "str_find html CHAOS_START < str_find html CHAOS_END" by fact
  from ge have n: "nat (str_find html CHAOS_START + int (length CHAOS_START))
      = nat (str_find html CHAOS_START) + length CHAOS_START"
    by (simp add: nat_add_distrib)
  from assms n show "before = take (nat (str_find html CHAOS_START) + length CHAOS_START) html"
    by (auto simp: split_chaos_region_def Let_def slice_to_def split: if_splits)
  from assms n show "region = drop (nat (str_find html CHAOS_START) + length CHAOS_START)
                    (take (nat (str_find html CHAOS_END)) html)"
    by (auto simp: split_chaos_region_def Let_def slice_def split: if_splits)
  from assms show "after = drop (nat (str_find html CHAOS_END)) html"
    by (auto simp: split_chaos_region_def Let_def slice_from_def split: if_splits)
qed

text \<open>
  Claim C5. Whenever \<open>split_chaos_region\<close> returns a triple, the prefix ends with the
  start marker, the suffix begins with the end marker, and prefix, interior and suffix
  put together are the document. The end marker cannot begin inside the first start
  marker (\<open>markers_apart\<close>), so the interior slice never runs backwards.
\<close>

theorem split_round_trip:
  assumes "split_chaos_region html = Inr (before, region, after)"
  shows "suffix CHAOS_START before \<and> prefix CHAOS_END after \<and> before @ region @ after = html"
proof -
  define s where "s = nat (str_find html CHAOS_START)"
  define e where "e = nat (str_find html CHAOS_END)"
  define n where "n = length CHAOS_START"
  note f = split_chaos_region_Inr [OF assms]
  from f(1) f(2) have ge_e: "0 \<le> str_find html CHAOS_END" by simp
  from markers_apart [OF f(1) f(2)] f(1) have le: "s + n \<le> e"
    by (simp add: s_def e_def n_def)
  from f(3-5) have b: "before = take (s + n) html"
    and r: "region = drop (s + n) (take e html)" and a: "after = drop e html"
    by (simp_all add: s_def e_def n_def)
  from str_find_hit [OF f(1)] have "take n (drop s html) = CHAOS_START"
    by (auto simp: prefix_def s_def n_def)
  then have "before = take s html @ CHAOS_START"
    by (simp add: b take_add)
  then have 1: "suffix CHAOS_START before" by (simp add: suffix_def)
  from str_find_hit [OF ge_e] have 2: "prefix CHAOS_END after"
    by (simp add: a e_def)
  have bt: "take (s + n) (take e html) = take (s + n) html"
    using le by (simp add: min_def)
  have "before @ region = take (s + n) (take e html) @ drop (s + n) (take e html)"
    by (simp only: b r bt)
  then have "before @ region = take e html"
    by (simp only: append_take_drop_id)
  then have 3: "before @ region @ after = html"
    by (simp add: a flip: append_assoc)
  from 1 2 3 show ?thesis by blast
qed

theorem split_round_trip_witness:
  "split_chaos_region ''ab<!-- CHAOS_START -->xy<!-- CHAOS_END -->cd''
     = Inr (''ab<!-- CHAOS_START -->'', ''xy'', ''<!-- CHAOS_END -->cd'')
   \<and> suffix CHAOS_START ''ab<!-- CHAOS_START -->''
   \<and> prefix CHAOS_END ''<!-- CHAOS_END -->cd''
   \<and> ''ab<!-- CHAOS_START -->'' @ ''xy'' @ ''<!-- CHAOS_END -->cd''
       = ''ab<!-- CHAOS_START -->xy<!-- CHAOS_END -->cd''"
proof -
  have h: "split_chaos_region ''ab<!-- CHAOS_START -->xy<!-- CHAOS_END -->cd''
     = Inr (''ab<!-- CHAOS_START -->'', ''xy'', ''<!-- CHAOS_END -->cd'')"
    by (simp add: split_chaos_region_def CHAOS_START_def CHAOS_END_def
        slice_def slice_to_def slice_from_def)
  from split_round_trip [OF h] h show ?thesis by simp
qed

text \<open>
  Claim C6. The split raises exactly when a marker is absent or the first end marker does
  not lie strictly behind the first start marker; the error is always the
  malformed-region \<^verbatim>\<open>ValueError\<close>, and on every other document the split returns a triple.
\<close>

theorem split_fails_iff:
  "(split_chaos_region html = Inl (ValueError ''Missing or misordered chaos markers'')
      \<longleftrightarrow> \<not> sublist CHAOS_START html \<or> \<not> sublist CHAOS_END html
          \<or> (\<exists>i j. first_offset html CHAOS_START i \<and> first_offset html CHAOS_END j \<and> j \<le> i))
   \<and> ((\<exists>before region after. split_chaos_region html = Inr (before, region, after))
      \<longleftrightarrow> \<not> (\<not> sublist CHAOS_START html \<or> \<not> sublist CHAOS_END html
          \<or> (\<exists>i j. first_offset html CHAOS_START i \<and> first_offset html CHAOS_END j \<and> j \<le> i)))
   \<and> (\<forall>x. split_chaos_region html = Inl x
          \<longrightarrow> x = ValueError ''Missing or misordered chaos markers'')"
proof -
  let ?s = "str_find html CHAOS_START" and ?e = "str_find html CHAOS_END"
  let ?bad = "\<not> sublist CHAOS_START html \<or> \<not> sublist CHAOS_END html
          \<or> (\<exists>i j. first_offset html CHAOS_START i \<and> first_offset html CHAOS_END j \<and> j \<le> i)"
  have bad: "?bad \<longleftrightarrow> ?s = - 1 \<or> ?e = - 1 \<or> ?e \<le> ?s"
  proof (cases "sublist CHAOS_START html \<and> sublist CHAOS_END html")
    case False
    then show ?thesis by (auto simp: str_find_miss)
  next
    case True
    then have fs: "first_offset html CHAOS_START (nat ?s)"
      and fe: "first_offset html CHAOS_END (nat ?e)"
      by (simp_all add: str_find_first_offset)
    from True have ne: "?s \<noteq> - 1" "?e \<noteq> - 1" by (simp_all add: str_find_miss)
    with str_find_range [of html CHAOS_START] str_find_range [of html CHAOS_END]
    have ge: "0 \<le> ?s" "0 \<le> ?e" by auto
    have "(\<exists>i j. first_offset html CHAOS_START i \<and> first_offset html CHAOS_END j \<and> j \<le> i)
        \<longleftrightarrow> nat ?e \<le> nat ?s"
      using fs fe first_offset_unique by blast
    with True ne ge show ?thesis by (simp add: nat_le_eq_zle)
  qed
  show ?thesis
    unfolding bad by (auto simp: split_chaos_region_def Let_def)
qed

theorem split_fails_iff_witness:
  "split_chaos_region ''<!-- CHAOS_END -->ab<!-- CHAOS_START -->''
     = Inl (ValueError ''Missing or misordered chaos markers'')
   \<and> (\<exists>i j. first_offset ''<!-- CHAOS_END -->ab<!-- CHAOS_START -->'' CHAOS_START i
           \<and> first_offset ''<!-- CHAOS_END -->ab<!-- CHAOS_START -->'' CHAOS_END j \<and> j \<le> i)
   \<and> (\<exists>before region after.
         split_chaos_region ''<!-- CHAOS_START -->ab<!-- CHAOS_END -->'' = Inr (before, region, after))
   \<and> \<not> (\<exists>i j. first_offset ''<!-- CHAOS_START -->ab<!-- CHAOS_END -->'' CHAOS_START i
           \<and> first_offset ''<!-- CHAOS_START -->ab<!-- CHAOS_END -->'' CHAOS_END j \<and> j \<le> i)"
proof -
  let ?bad = "''<!-- CHAOS_END -->ab<!-- CHAOS_START -->''"
  let ?good = "''<!-- CHAOS_START -->ab<!-- CHAOS_END -->''"
  have b: "split_chaos_region ?bad = Inl (ValueError ''Missing or misordered chaos markers'')"
    by (simp add: split_chaos_region_def CHAOS_START_def CHAOS_END_def)
  have sb: "sublist CHAOS_START ?bad" "sublist CHAOS_END ?bad"
    by (simp_all add: CHAOS_START_def CHAOS_END_def sublist_Cons_right)
  have g: "split_chaos_region ?good = Inr (''<!-- CHAOS_START -->'', ''ab'', ''<!-- CHAOS_END -->'')"
    by (simp add: split_chaos_region_def CHAOS_START_def CHAOS_END_def
        slice_def slice_to_def slice_from_def)
  from b sb split_fails_iff [of ?bad] have 1:
    "\<exists>i j. first_offset ?bad CHAOS_START i \<and> first_offset ?bad CHAOS_END j \<and> j \<le> i"
    by blast
  from g split_fails_iff [of ?good] have 2:
    "\<not> (\<exists>i j. first_offset ?good CHAOS_START i \<and> first_offset ?good CHAOS_END j \<and> j \<le> i)"
    by blast
  from b 1 g 2 show ?thesis by blast
qed

section \<open>The HTML safety scanner\<close>

lemma dict_set_keys: "fst ` set (dict_set d k v) = insert k (fst ` set d)"
  by (induction d k v rule: dict_set.induct) auto

lemma foldl_dict_set_keys:
  "fst ` set (foldl (\<lambda>d (k, v). dict_set d (f k) (g v)) d0 as)
     = fst ` set d0 \<union> f ` fst ` set as"
proof (induction as arbitrary: d0)
  case Nil
  then show ?case by simp
next
  case (Cons a as)
  obtain k v where a: "a = (k, v)" by (cases a)
  show ?case
    by (simp add: a Cons.IH dict_set_keys)
qed

lemma attr_map_of_keys: "fst ` set (attr_map_of as) = lower ` fst ` set as"
  unfolding attr_map_of_def by (simp add: foldl_dict_set_keys)

lemma event_handler_errors_Nil:
  assumes "\<forall>k \<in> fst ` set d. \<not> startswith k ''on''"
  shows "event_handler_errors tag d = []"
  using assms unfolding event_handler_errors_def by (induction d) auto

lemma anchor_errors_in_handle:
  "lower tag = ''a'' \<Longrightarrow> set (anchor_errors (attr_map_of as)) \<subseteq> set (handle_starttag tag as)"
  by (auto simp: handle_starttag_def Let_def)

lemma event_handler_errors_hd:
  "m \<in> set (event_handler_errors tag d) \<Longrightarrow> hd m = CHR ''I''"
  by (auto simp: event_handler_errors_def split: if_splits)

lemma anchor_errors_empty_href:
  "dict_get d ''href'' '''' = [] \<Longrightarrow> anchor_errors d = []"
  by (simp add: anchor_errors_def py_eval)

lemma dict_get_dict_set:
  "dict_get (dict_set d k v) k' dflt = (if k' = k then v else dict_get d k' dflt)"
  by (induction d k v rule: dict_set.induct) (auto simp: dict_get_def)

lemma foldl_dict_set_empty:
  assumes "dict_get d0 key [] = []"
    and "\<forall>(k, v) \<in> set as. f k = key \<longrightarrow> g v = []"
  shows "dict_get (foldl (\<lambda>d (k, v). dict_set d (f k) (g v)) d0 as) key [] = []"
  using assms
proof (induction as arbitrary: d0)
  case Nil
  then show ?case by simp
next
  case (Cons a as)
  obtain k v where a: "a = (k, v)" by (cases a)
  from Cons.prems a have "dict_get (dict_set d0 (f k) (g v)) key [] = []"
    by (simp add: dict_get_dict_set)
  moreover from Cons.prems have "\<forall>(k, v) \<in> set as. f k = key \<longrightarrow> g v = []"
    by simp
  ultimately have "dict_get (foldl (\<lambda>d (k, v). dict_set d (f k) (g v))
      (dict_set d0 (f k) (g v)) as) key [] = []"
    by (rule Cons.IH)
  then show ?case by (simp add: a)
qed

lemma attr_map_of_empty_href:
  assumes "\<forall>(k, v) \<in> set as. lower k = ''href'' \<longrightarrow> v = None \<or> v = Some ''''"
  shows "dict_get (attr_map_of as) ''href'' '''' = []"
  unfolding attr_map_of_def
proof (rule foldl_dict_set_empty)
  show "dict_get [] ''href'' [] = []" by (simp add: dict_get_def)
  from assms show "\<forall>(k, v)\<in>set as. lower k = ''href''
      \<longrightarrow> (case v of None \<Rightarrow> [] | Some x \<Rightarrow> x) = []"
    by (auto split: option.splits)
qed

lemma javascript_example:
  "handle_starttag ''a'' [(''href'', Some ''javascript:alert(1)''), (''onclick'', Some ''x()'')]
     = [''Inline event handler attribute not allowed: a[onclick]'',
        ''Links must not use javascript: URLs'',
        ''Links must be http(s) or fragment only: href=javascript:alert(1)'']"
  by (simp add: handle_starttag_def anchor_errors_def event_handler_errors_def py_eval)

text \<open>
  Claim C2, as stated, fails: the handler tests the \<^verbatim>\<open>javascript:\<close> prefix and the allowed
  schemes in two independent \<^verbatim>\<open>if\<close> statements, so the start tag of the claim's own
  example receives the "http(s) or fragment only" message as well.
\<close>

theorem javascript_href_counterexample:
  "''Links must be http(s) or fragment only: href=javascript:alert(1)''
     \<in> set (handle_starttag ''a''
              [(''href'', Some ''javascript:alert(1)''), (''onclick'', Some ''x()'')])"
  by (simp add: javascript_example)

text \<open>
  Claim C2, amended. For every \<^verbatim>\<open>a\<close> start tag whose \<^verbatim>\<open>href\<close> value, trimmed and lowercased,
  starts with \<^verbatim>\<open>javascript:\<close>, the scanner emits the javascript:-URL message and also the
  "http(s) or fragment only" message. The start tag
  \<^verbatim>\<open><a href="javascript:alert(1)" onclick="x()">\<close> produces exactly three messages: the
  inline event handler, the javascript: URL and the disallowed scheme; so does the scan of
  a region in which the tokenizer finds this one start tag.
\<close>

theorem javascript_href_both_violations:
  "(lower tag = ''a''
      \<and> dict_get (attr_map_of as) ''href'' '''' = href
      \<and> startswith (lower (strip href)) ''javascript:''
    \<longrightarrow> ''Links must not use javascript: URLs'' \<in> set (handle_starttag tag as)
      \<and> ''Links must be http(s) or fragment only: href='' @ href \<in> set (handle_starttag tag as))
   \<and> handle_starttag ''a'' [(''href'', Some ''javascript:alert(1)''), (''onclick'', Some ''x()'')]
       = [''Inline event handler attribute not allowed: a[onclick]'',
          ''Links must not use javascript: URLs'',
          ''Links must be http(s) or fragment only: href=javascript:alert(1)'']
   \<and> (tok region = [(''a'', [(''href'', Some ''javascript:alert(1)''), (''onclick'', Some ''x()'')])]
    \<longrightarrow> feed tok region
       = [''Inline event handler attribute not allowed: a[onclick]'',
          ''Links must not use javascript: URLs'',
          ''Links must be http(s) or fragment only: href=javascript:alert(1)''])"
proof -
  have gen: "''Links must not use javascript: URLs'' \<in> set (handle_starttag tag as)
      \<and> ''Links must be http(s) or fragment only: href='' @ href \<in> set (handle_starttag tag as)"
    if a: "lower tag = ''a''" and h: "dict_get (attr_map_of as) ''href'' '''' = href"
      and js: "startswith (lower (strip href)) ''javascript:''"
  proof -
    from js obtain r where r: "lower (strip href) = ''javascript:'' @ r"
      by (auto simp: startswith_def prefix_def)
    have ne: "href \<noteq> []"
    proof
      assume "href = []"
      with r show False by (simp add: py_eval)
    qed
    from r have no: "\<not> (startswith (lower (strip href)) ''http://''
        \<or> startswith (lower (strip href)) ''https://'' \<or> startswith (lower (strip href)) ''#'')"
      by (simp add: startswith_def)
    from h js ne no
    have "''Links must not use javascript: URLs'' \<in> set (anchor_errors (attr_map_of as))"
      and "''Links must be http(s) or fragment only: href='' @ href
             \<in> set (anchor_errors (attr_map_of as))"
      by (simp_all add: anchor_errors_def Let_def)
    with anchor_errors_in_handle [OF a] show ?thesis by blast
  qed
  have fd: "feed tok region
       = [''Inline event handler attribute not allowed: a[onclick]'',
          ''Links must not use javascript: URLs'',
          ''Links must be http(s) or fragment only: href=javascript:alert(1)'']"
    if "tok region = [(''a'', [(''href'', Some ''javascript:alert(1)''), (''onclick'', Some ''x()'')])]"
    using that by (simp add: feed_def javascript_example)
  from gen javascript_example fd show ?thesis by blast
qed

theorem javascript_href_both_violations_witness:
  "''Links must not use javascript: URLs''
     \<in> set (handle_starttag ''A'' [(''HREF'', Some ''  JavaScript:alert(1) '')])
   \<and> ''Links must be http(s) or fragment only: href=  JavaScript:alert(1) ''
     \<in> set (handle_starttag ''A'' [(''HREF'', Some ''  JavaScript:alert(1) '')])"
proof -
  have "lower ''A'' = ''a''"
    and "dict_get (attr_map_of [(''HREF'', Some ''  JavaScript:alert(1) '')]) ''href'' ''''
          = ''  JavaScript:alert(1) ''"
    and "startswith (lower (strip ''  JavaScript:alert(1) '')) ''javascript:''"
    by (simp_all add: py_eval)
  with javascript_href_both_violations
    [of "''A''" "[(''HREF'', Some ''  JavaScript:alert(1) '')]" "''  JavaScript:alert(1) ''"]
  show ?thesis by simp
qed

text \<open>
  Claim C3, as stated, fails for the empty value: the handler reads the attribute with
  \<^verbatim>\<open>attr_map.get("href", "")\<close> and guards both scheme checks with \<^verbatim>\<open>if href:\<close>, so an
  \<^verbatim>\<open>href\<close> that is present and empty produces no message.
\<close>

theorem empty_href_counterexample:
  "handle_starttag ''a'' [(''href'', Some '''')] = []"
  by (simp add: handle_starttag_def anchor_errors_def event_handler_errors_def py_eval)

text \<open>
  Claim C3, amended. For every \<^verbatim>\<open>a\<close> start tag whose \<^verbatim>\<open>href\<close> value is not the empty string
  and, trimmed and lowercased, does not start with \<^verbatim>\<open>http://\<close>, \<^verbatim>\<open>https://\<close> or \<^verbatim>\<open>#\<close>, the
  scanner emits the "http(s) or fragment only" message, which quotes the value as
  written. An \<^verbatim>\<open>a\<close> start tag whose \<^verbatim>\<open>href\<close> value is the empty string (the attribute is
  empty, has no value, or is absent) produces no href message at all, neither the scheme
  message nor the javascript: one: its only messages are those for inline event handlers.
\<close>

theorem href_scheme_violation:
  "(lower tag = ''a''
      \<and> dict_get (attr_map_of as) ''href'' '''' = href
      \<and> href \<noteq> []
      \<and> \<not> startswith (lower (strip href)) ''http://''
      \<and> \<not> startswith (lower (strip href)) ''https://''
      \<and> \<not> startswith (lower (strip href)) ''#''
    \<longrightarrow> ''Links must be http(s) or fragment only: href='' @ href \<in> set (handle_starttag tag as))
   \<and> (lower tag = ''a''
      \<and> (dict_get (attr_map_of as) ''href'' '''' = []
         \<or> (\<forall>(k, v) \<in> set as. lower k = ''href'' \<longrightarrow> v = None \<or> v = Some ''''))
    \<longrightarrow> handle_starttag tag as = event_handler_errors tag (attr_map_of as)
      \<and> (\<forall>v. ''Links must be http(s) or fragment only: href='' @ v \<notin> set (handle_starttag tag as))
      \<and> ''Links must not use javascript: URLs'' \<notin> set (handle_starttag tag as))"
proof -
  have pos: "''Links must be http(s) or fragment only: href='' @ href \<in> set (handle_starttag tag as)"
    if a: "lower tag = ''a''" and h: "dict_get (attr_map_of as) ''href'' '''' = href"
      and ne: "href \<noteq> []"
      and s: "\<not> startswith (lower (strip href)) ''http://''"
        "\<not> startswith (lower (strip href)) ''https://''"
        "\<not> startswith (lower (strip href)) ''#''"
  proof -
    from h ne s
    have "''Links must be http(s) or fragment only: href='' @ href
            \<in> set (anchor_errors (attr_map_of as))"
      by (simp add: anchor_errors_def Let_def)
    with anchor_errors_in_handle [OF a] show ?thesis by blast
  qed
  have neg: "handle_starttag tag as = event_handler_errors tag (attr_map_of as)
      \<and> (\<forall>v. ''Links must be http(s) or fragment only: href='' @ v \<notin> set (handle_starttag tag as))
      \<and> ''Links must not use javascript: URLs'' \<notin> set (handle_starttag tag as)"
    if a: "lower tag = ''a''"
      and e: "dict_get (attr_map_of as) ''href'' '''' = []
         \<or> (\<forall>(k, v) \<in> set as. lower k = ''href'' \<longrightarrow> v = None \<or> v = Some '''')"
  proof -
    from e attr_map_of_empty_href [of as] have "dict_get (attr_map_of as) ''href'' '''' = []"
      by blast
    then have "anchor_errors (attr_map_of as) = []"
      by (rule anchor_errors_empty_href)
    with a have eq: "handle_starttag tag as = event_handler_errors tag (attr_map_of as)"
      by (simp add: handle_starttag_def Let_def)
    have "m \<in> set (handle_starttag tag as) \<Longrightarrow> hd m = CHR ''I''" for m
      unfolding eq by (rule event_handler_errors_hd)
    then have "''Links must be http(s) or fragment only: href='' @ v \<notin> set (handle_starttag tag as)"
      and "''Links must not use javascript: URLs'' \<notin> set (handle_starttag tag as)" for v
      by fastforce+
    with eq show ?thesis by blast
  qed
  from pos neg show ?thesis by blast
qed

theorem href_scheme_violation_witness:
  "''Links must be http(s) or fragment only: href=ftp://host/f''
     \<in> set (handle_starttag ''a'' [(''href'', Some ''ftp://host/f'')])
   \<and> ''Links must be http(s) or fragment only: href=   ''
     \<in> set (handle_starttag ''a'' [(''href'', Some ''   '')])
   \<and> handle_starttag ''A'' [(''HREF'', None), (''class'', Some ''x''), (''onclick'', Some ''f()'')]
       = [''Inline event handler attribute not allowed: A[onclick]'']
   \<and> handle_starttag ''a'' [(''href'', Some ''ftp://h''), (''title'', Some ''t''), (''href'', Some '''')]
       = []"
proof -
  have 1: "''Links must be http(s) or fragment only: href='' @ ''ftp://host/f''
     \<in> set (handle_starttag ''a'' [(''href'', Some ''ftp://host/f'')])"
    using href_scheme_violation [of "''a''" "[(''href'', Some ''ftp://host/f'')]" "''ftp://host/f''"]
    by (simp add: py_eval)
  have 2: "''Links must be http(s) or fragment only: href='' @ ''   ''
     \<in> set (handle_starttag ''a'' [(''href'', Some ''   '')])"
    using href_scheme_violation [of "''a''" "[(''href'', Some ''   '')]" "''   ''"]
    by (simp add: py_eval)
  have 3: "handle_starttag ''A'' [(''HREF'', None), (''class'', Some ''x''), (''onclick'', Some ''f()'')]
       = event_handler_errors ''A''
           (attr_map_of [(''HREF'', None), (''class'', Some ''x''), (''onclick'', Some ''f()'')])"
    using href_scheme_violation
      [of "''A''" "[(''HREF'', None), (''class'', Some ''x''), (''onclick'', Some ''f()'')]"]
    by (simp add: py_eval)
  have 4: "handle_starttag ''a'' [(''href'', Some ''ftp://h''), (''title'', Some ''t''), (''href'', Some '''')]
       = event_handler_errors ''a''
           (attr_map_of [(''href'', Some ''ftp://h''), (''title'', Some ''t''), (''href'', Some '''')])"
    using href_scheme_violation
      [of "''a''" "[(''href'', Some ''ftp://h''), (''title'', Some ''t''), (''href'', Some '''')]"]
    by (simp add: py_eval)
  from 1 2 show ?thesis
    unfolding 3 4 by (simp add: event_handler_errors_def py_eval)
qed


text \<open>
  Claim C4. A start tag that is neither \<^verbatim>\<open>a\<close> nor \<^verbatim>\<open>img\<close> and has no attribute whose
  lowercased name starts with \<^verbatim>\<open>on\<close> produces no message, whatever its name and its other
  attributes are: \<^verbatim>\<open>script\<close>, \<^verbatim>\<open>iframe\<close> and \<^verbatim>\<open>style\<close> start tags pass.
\<close>

theorem other_tags_unflagged:
  assumes "lower tag \<noteq> ''a''" and "lower tag \<noteq> ''img''"
    and "\<forall>(k, v) \<in> set as. \<not> startswith (lower k) ''on''"
  shows "handle_starttag tag as = []"
proof -
  from assms(3) have "\<forall>k \<in> fst ` set (attr_map_of as). \<not> startswith k ''on''"
    unfolding attr_map_of_keys by auto
  then have "event_handler_errors tag (attr_map_of as) = []"
    by (rule event_handler_errors_Nil)
  with assms(1,2) show ?thesis
    by (simp add: handle_starttag_def)
qed

theorem other_tags_unflagged_witness:
  "handle_starttag ''script'' [(''src'', Some ''http://evil.example/x.js'')] = []
   \<and> handle_starttag ''iframe'' [(''src'', Some ''javascript:alert(1)'')] = []
   \<and> handle_starttag ''style'' [] = []
   \<and> handle_starttag ''SCRIPT'' [(''href'', Some ''javascript:alert(1)''), (''alt'', None)] = []"
proof -
  have 1: "handle_starttag ''script'' [(''src'', Some ''http://evil.example/x.js'')] = []"
    by (rule other_tags_unflagged) (simp_all add: py_eval)
  have 2: "handle_starttag ''iframe'' [(''src'', Some ''javascript:alert(1)'')] = []"
    by (rule other_tags_unflagged) (simp_all add: py_eval)
  have 3: "handle_starttag ''style'' [] = []"
    by (rule other_tags_unflagged) (simp_all add: py_eval)
  have 4: "handle_starttag ''SCRIPT'' [(''href'', Some ''javascript:alert(1)''), (''alt'', None)] = []"
    by (rule other_tags_unflagged) (simp_all add: py_eval)
  from 1 2 3 4 show ?thesis by blast
qed

section \<open>The CSS scope checker\<close>

lemmas css_eval =
  validate_css_scoping_def preprocess_def check_block_def check_selector_def py_eval

lemma strip_strings_skip:
  "q \<notin> set pre \<Longrightarrow> strip_strings q (pre @ rest) = pre @ strip_strings q rest"
  by (induction pre) auto

lemma string_end_body:
  "string_body q body \<Longrightarrow> string_end q (body @ q # post) = Some (Suc (length body))"
  by (induction q body rule: string_body.induct) (auto split: list.splits if_splits)

lemma strip_strings_literal:
  assumes "string_body q body"
  shows "strip_strings q (q # body @ q # post) = q # q # strip_strings q post"
  using string_end_body [OF assms, of post] by simp

lemma split_char_not_Nil: "split_char d s \<noteq> []"
  by (induction s) (auto split: list.splits)

lemma split_char_none: "d \<notin> set a \<Longrightarrow> split_char d a = [a]"
  by (induction a) auto

lemma split_char_first:
  "d \<notin> set a \<Longrightarrow> split_char d (a @ d # b) = a # split_char d b"
  by (induction a) auto

lemma strip_padded:
  assumes "\<forall>c \<in> set ws1. isspace c" and "\<forall>c \<in> set ws2. isspace c" and "\<not> isspace x"
  shows "strip (ws1 @ x # ws2) = [x]"
proof -
  from assms(1) have "lstrip (ws1 @ x # ws2) = dropWhile isspace (x # ws2)"
    unfolding lstrip_def by (simp add: dropWhile_append2)
  with assms(3) have l: "lstrip (ws1 @ x # ws2) = x # ws2" by simp
  have "dropWhile isspace (rev ws2 @ [x]) = dropWhile isspace [x]"
    by (rule dropWhile_append2) (use assms(2) in simp)
  with assms(3) have "rstrip (x # ws2) = [x]"
    unfolding rstrip_def by simp
  with l show ?thesis by (simp add: strip_def)
qed

lemma strip_comments_skip:
  "CHR ''/'' \<notin> set pre \<Longrightarrow> strip_comments (pre @ rest) = pre @ strip_comments rest"
proof (induction pre)
  case Nil
  then show ?case by simp
next
  case (Cons a pre)
  then show ?case
    by (cases "pre @ rest") auto
qed

lemma preprocess_skip:
  assumes "CHR ''/'' \<notin> set pre" and "CHR 0x27 \<notin> set pre" and "CHR 0x22 \<notin> set pre"
  shows "preprocess (pre @ rest) = pre @ preprocess rest"
  using assms by (simp add: preprocess_def strip_comments_skip strip_strings_skip)

lemma string_example_preprocess:
  \<open>preprocess ''.chaos-region .x { content: "h1 { color }"; }''
     = ''.chaos-region .x { content: ""; }''\<close>
  by (simp add: preprocess_def)

text \<open>
  Claim C1, as stated, fails: a selector that does not start with \<^verbatim>\<open>.chaos-region\<close> gets the
  prefix message and \<^verbatim>\<open>continue\<close> skips the token loop, so the bare-element test never sees
  the selector \<^verbatim>\<open>*\<close>. The claim's own example yields the prefix message alone.
\<close>

theorem star_selector_counterexample:
  "validate_css_scoping ''* { margin:0; }'' = [''All selectors must start with .chaos-region: *'']"
  by (simp add: css_eval)

text \<open>
  Claim C1, amended. For CSS input whose first selector list is exactly \<^verbatim>\<open>*\<close> (whitespace
  around it allowed), the checker emits for that selector the message
  "All selectors must start with .chaos-region: *" and no bare-element message; the
  messages behind it are those of the text after the opening brace.
\<close>

theorem star_selector_prefix_violation:
  assumes ws1: "\<forall>c \<in> set ws1. isspace c" and ws2: "\<forall>c \<in> set ws2. isspace c"
  shows "validate_css_scoping (ws1 @ ''*'' @ ws2 @ ''{'' @ rest)
           = ''All selectors must start with .chaos-region: *'' # validate_css_scoping rest"
proof -
  define sel where "sel = ws1 @ ''*'' @ ws2"
  have sp: "c \<in> set sel \<Longrightarrow> c = CHR ''*'' \<or> isspace c" for c
    using ws1 ws2 by (auto simp: sel_def)
  have sel_free: "c \<in> {CHR ''{'', CHR ''}'', CHR ''/'', CHR 0x27, CHR 0x22} \<Longrightarrow> c \<notin> set sel" for c
    using sp [of c] by (auto simp: isspace_def)
  have css: "ws1 @ ''*'' @ ws2 @ ''{'' @ rest = (sel @ ''{'') @ rest"
    by (simp add: sel_def)
  from sel_free have "CHR ''/'' \<notin> set (sel @ ''{'')"
    and "CHR 0x27 \<notin> set (sel @ ''{'')" and "CHR 0x22 \<notin> set (sel @ ''{'')"
    by auto
  then have pre: "preprocess ((sel @ ''{'') @ rest) = (sel @ ''{'') @ preprocess rest"
    by (rule preprocess_skip)
  from sel_free
  have "split_char CHR ''{'' (sel @ CHR ''{'' # preprocess rest)
      = sel # split_char CHR ''{'' (preprocess rest)"
    by (simp add: split_char_first)
  then have blocks: "butlast (split_char CHR ''{'' ((sel @ ''{'') @ preprocess rest))
      = sel # butlast (split_char CHR ''{'' (preprocess rest))"
    by (simp add: split_char_not_Nil)
  have "strip sel = ''*''"
    unfolding sel_def using strip_padded [OF ws1 ws2, of "CHR ''*''"]
    by (simp add: isspace_def)
  moreover have "split_char CHR ''}'' sel = [sel]"
    using sel_free by (simp add: split_char_none)
  ultimately have "check_block sel = [''All selectors must start with .chaos-region: *'']"
    by (simp add: check_block_def check_selector_def py_eval)
  then show ?thesis
    unfolding css validate_css_scoping_def pre blocks by simp
qed

theorem star_selector_prefix_violation_witness:
  \<open>validate_css_scoping ('' '' @ ''*'' @ ''  '' @ ''{'' @ '' margin:0; } .chaos-region * { content: "x" }'')
     = [''All selectors must start with .chaos-region: *'',
        ''Bare element selector not allowed in chaos.css: .chaos-region *'']\<close>
proof -
  have \<open>validate_css_scoping '' margin:0; } .chaos-region * { content: "x" }''
      = [''Bare element selector not allowed in chaos.css: .chaos-region *'']\<close>
    by (simp add: css_eval)
  moreover have \<open>\<forall>c \<in> set '' ''. isspace c\<close> \<open>\<forall>c \<in> set ''  ''. isspace c\<close>
    by (simp_all add: isspace_def)
  ultimately show ?thesis
    using star_selector_prefix_violation [of "'' ''" "''  ''"] by simp
qed


lemma comment_end_first:
  "\<not> sublist ''*/'' (body @ ''*'')
     \<Longrightarrow> comment_end (body @ CHR ''*'' # CHR ''/'' # rest) = Some (length body + 2)"
proof (induction body)
  case Nil
  then show ?case by simp
next
  case (Cons a body)
  from Cons.prems have np: "\<not> prefix ''*/'' (a # body @ ''*'')"
    and ns: "\<not> sublist ''*/'' (body @ ''*'')"
    by (simp_all add: sublist_Cons_right)
  obtain b cs where bc: "body @ CHR ''*'' # CHR ''/'' # rest = b # cs"
    by (cases "body @ CHR ''*'' # CHR ''/'' # rest") auto
  have "\<not> (a = CHR ''*'' \<and> b = CHR ''/'')"
  proof
    assume ab: "a = CHR ''*'' \<and> b = CHR ''/''"
    with bc have "body \<noteq> []" by (cases body) auto
    then obtain body' where "body = b # body'" using bc by (cases body) auto
    with ab np show False by simp
  qed
  with Cons.IH [OF ns] bc show ?case
    by (simp del: comment_end.simps add: comment_end.simps(1) [of a b cs])
qed

lemma strip_comments_comment:
  assumes "CHR ''/'' \<notin> set pre" and "\<not> sublist ''*/'' (body @ ''*'')"
  shows "strip_comments (pre @ ''/*'' @ body @ ''*/'' @ rest) = pre @ strip_comments rest"
proof -
  have "strip_comments (CHR ''/'' # CHR ''*'' # body @ CHR ''*'' # CHR ''/'' # rest)
      = strip_comments rest"
    using comment_end_first [OF assms(2), of rest] by simp
  with strip_comments_skip [OF assms(1)] show ?thesis by simp
qed

lemma preprocess_comment:
  assumes "CHR ''/'' \<notin> set pre" and "CHR 0x27 \<notin> set pre" and "CHR 0x22 \<notin> set pre"
    and "\<not> sublist ''*/'' (body @ ''*'')"
  shows "preprocess (pre @ ''/*'' @ body @ ''*/'' @ rest) = pre @ preprocess rest"
  unfolding preprocess_def strip_comments_comment [OF assms(1,4)]
  using assms(2,3) by (simp add: strip_strings_skip)

lemma preprocess_single_quoted:
  assumes "CHR ''/'' \<notin> set pre" and "CHR 0x27 \<notin> set pre" and "CHR 0x22 \<notin> set pre"
    and "string_body CHR 0x27 body" and "CHR ''/'' \<notin> set body"
  shows "preprocess (pre @ [CHR 0x27] @ body @ [CHR 0x27] @ rest)
           = pre @ [CHR 0x27, CHR 0x27] @ preprocess rest"
proof -
  let ?q = "CHR 0x27"
  have "strip_comments ((pre @ ?q # body @ [?q]) @ rest)
      = (pre @ ?q # body @ [?q]) @ strip_comments rest"
    by (rule strip_comments_skip) (use assms(1,5) in simp)
  then have 1: "strip_comments (pre @ [?q] @ body @ [?q] @ rest)
      = pre @ ?q # body @ ?q # strip_comments rest"
    by simp
  have 2: "strip_strings ?q (pre @ ?q # body @ ?q # strip_comments rest)
      = pre @ ?q # ?q # strip_strings ?q (strip_comments rest)"
    by (simp only: strip_strings_skip [OF assms(2)] strip_strings_literal [OF assms(4)])
  have 3: "strip_strings CHR 0x22 ((pre @ [?q, ?q]) @ strip_strings ?q (strip_comments rest))
      = (pre @ [?q, ?q]) @ strip_strings CHR 0x22 (strip_strings ?q (strip_comments rest))"
    by (rule strip_strings_skip) (use assms(3) in simp)
  show ?thesis
    unfolding preprocess_def 1 2 using 3 by simp
qed

lemma preprocess_double_quoted:
  assumes "CHR ''/'' \<notin> set pre" and "CHR 0x27 \<notin> set pre" and "CHR 0x22 \<notin> set pre"
    and "string_body CHR 0x22 body" and "CHR ''/'' \<notin> set body" and "CHR 0x27 \<notin> set body"
  shows "preprocess (pre @ [CHR 0x22] @ body @ [CHR 0x22] @ rest)
           = pre @ [CHR 0x22, CHR 0x22] @ preprocess rest"
proof -
  let ?q = "CHR 0x22"
  have "strip_comments ((pre @ ?q # body @ [?q]) @ rest)
      = (pre @ ?q # body @ [?q]) @ strip_comments rest"
    by (rule strip_comments_skip) (use assms(1,5) in simp)
  then have 1: "strip_comments (pre @ [?q] @ body @ [?q] @ rest)
      = (pre @ ?q # body @ [?q]) @ strip_comments rest"
    by simp
  have 2: "strip_strings CHR 0x27 ((pre @ ?q # body @ [?q]) @ strip_comments rest)
      = (pre @ ?q # body @ [?q]) @ strip_strings CHR 0x27 (strip_comments rest)"
    by (rule strip_strings_skip) (use assms(2,6) in simp)
  have 3: "strip_strings ?q (pre @ ?q # body @ ?q # strip_strings CHR 0x27 (strip_comments rest))
      = pre @ ?q # ?q # strip_strings ?q (strip_strings CHR 0x27 (strip_comments rest))"
    by (simp only: strip_strings_skip [OF assms(3)] strip_strings_literal [OF assms(4)])
  show ?thesis
    unfolding preprocess_def 1 2 using 3 by simp
qed

lemma no_violation_after_preprocess:
  \<open>preprocess css = ''.chaos-region .x { content: ""; }'' \<Longrightarrow> validate_css_scoping css = []\<close>
  unfolding validate_css_scoping_def
  by (simp add: check_block_def check_selector_def py_eval)

lemma string_example_no_violation:
  \<open>validate_css_scoping ''.chaos-region .x { content: "h1 { color }"; }'' = []\<close>
  by (rule no_violation_after_preprocess [OF string_example_preprocess])

text \<open>
  Claim C10. On the claim's own input the checker returns no message
  (\<open>string_example_no_violation\<close>), and a block comment or a string literal that the
  earlier passes leave whole is removed before the selectors are read
  (\<open>preprocess_comment\<close>, \<open>preprocess_single_quoted\<close>, \<open>preprocess_double_quoted\<close>). But
  the code does not keep the text of every string literal out of the selector scan, as the
  claim and the code's own comments ("Strip block comments.", "Remove strings to avoid
  false positives.") say: the comment pass runs first and also inside string literals.
  In \<^verbatim>\<open>.chaos-region .x { content: "h1 { \/*\*/"; }\<close> it deletes \<^verbatim>\<open>/*\*/\<close> from the literal,
  whose last quote then reads as escaped; the double-quote pattern finds no closing
  quote, the literal stays, and its text \<^verbatim>\<open>content: "h1\<close> is reported as a selector.
\<close>

theorem string_literal_parsed_as_selector:
  \<open>preprocess (''.chaos-region .x { content: "h1 { '' @ [CHR 0x5C] @ ''/*'' @ [CHR 0x5C] @ ''*/"; }'')
     = ''.chaos-region .x { content: "h1 { '' @ [CHR 0x5C] @ ''"; }''
   \<and> validate_css_scoping
       (''.chaos-region .x { content: "h1 { '' @ [CHR 0x5C] @ ''/*'' @ [CHR 0x5C] @ ''*/"; }'')
     = [''All selectors must start with .chaos-region: content: "h1'']\<close>
  by (simp add: css_eval)


section \<open>The change-set validator\<close>

lemma split_chaos_region_Inl:
  "split_chaos_region html = Inl x \<Longrightarrow> x = ValueError ''Missing or misordered chaos markers''"
  by (auto simp: split_chaos_region_def Let_def split: if_splits)

lemma sorted_allowed:
  "join '', '' (sorted_strs ALLOWED_CHANGED_FILES)
     = ''chaos-board/assets/chaos.css, chaos-board/index.html''"
  by (simp add: sorted_strs_def ALLOWED_CHANGED_FILES_def)

lemma allow_list_errors_illegal:
  assumes "\<exists>f \<in> set files. f \<notin> set ALLOWED_CHANGED_FILES"
  shows "allow_list_errors files =
    [''Only these files may change: chaos-board/assets/chaos.css, chaos-board/index.html'',
     ''Illegal changed files: '' @ join '', '' (filter (\<lambda>f. f \<notin> set ALLOWED_CHANGED_FILES) files)]"
proof -
  from assms have "filter (\<lambda>f. f \<notin> set ALLOWED_CHANGED_FILES) files \<noteq> []"
    by (simp add: filter_empty_conv)
  then show ?thesis
    by (simp add: allow_list_errors_def Let_def sorted_allowed)
qed

lemma allow_list_errors_hd: "m \<in> set (allow_list_errors files) \<Longrightarrow> hd m \<noteq> CHR ''i''"
  by (auto simp: allow_list_errors_def Let_def split: if_splits)

lemma handle_starttag_hd: "m \<in> set (handle_starttag tag as) \<Longrightarrow> hd m \<noteq> CHR ''i''"
  by (auto simp: handle_starttag_def event_handler_errors_def anchor_errors_def
      img_errors_def Let_def split: if_splits)

lemma feed_hd: "m \<in> set (feed tok html) \<Longrightarrow> hd m \<noteq> CHR ''i''"
  by (auto simp: feed_def dest: handle_starttag_hd)

lemma check_tokens_hd: "m \<in> set (check_tokens sel ts) \<Longrightarrow> hd m \<noteq> CHR ''i''"
  by (induction sel ts rule: check_tokens.induct)
     (auto simp: Let_def split: if_splits option.splits)

lemma validate_css_scoping_hd: "m \<in> set (validate_css_scoping css) \<Longrightarrow> hd m \<noteq> CHR ''i''"
  by (auto simp: validate_css_scoping_def check_block_def check_selector_def Let_def
      split: if_splits dest: check_tokens_hd)

lemma validate_unfold:
  assumes "changed_files e base_ref = Some files"
    and "html_errors e base_ref files = Inr herrs"
    and "css_errors e files = Inr cerrs"
  shows "validate e base_ref =
    Inr \<lparr>ok = (allow_list_errors files @ herrs @ cerrs = []),
         errors = allow_list_errors files @ herrs @ cerrs\<rparr>"
  using assms by (simp add: validate_def Let_def)

lemma css_errors_read:
  assumes "''chaos-board/assets/chaos.css'' \<in> set files
           \<longrightarrow> read_worktree e ''chaos-board/assets/chaos.css'' = Some css"
  shows "css_errors e files =
    Inr (if ''chaos-board/assets/chaos.css'' \<in> set files then validate_css_scoping css else [])"
  using assms by (simp add: css_errors_def)

text \<open>
  Claim C7. When the HTML target is in the change set, both documents are read and both
  splits return, the run returns a result whose messages are, in this order: those of the
  allow-list check; the outside-region message, present exactly when the prefixes or the
  suffixes differ; every message of the scan of the current interior; those of the CSS
  step. The outside-region message is no message of any other check, so it is in the
  result exactly when the prefixes or the suffixes differ.
\<close>

theorem validate_region_ok:
  assumes files: "changed_files e base_ref = Some files"
    and changed: "''chaos-board/index.html'' \<in> set files"
    and base: "read_file_at_ref e (''origin/'' @ base_ref) ''chaos-board/index.html'' = Some base_html"
    and head: "read_worktree e ''chaos-board/index.html'' = Some head_html"
    and sb: "split_chaos_region base_html = Inr (base_before, base_region, base_after)"
    and sh: "split_chaos_region head_html = Inr (head_before, head_region, head_after)"
    and css: "''chaos-board/assets/chaos.css'' \<in> set files
              \<longrightarrow> read_worktree e ''chaos-board/assets/chaos.css'' = Some css"
  shows "\<exists>r. validate e base_ref = Inr r
     \<and> errors r =
         allow_list_errors files @
         (if base_before \<noteq> head_before \<or> base_after \<noteq> head_after
          then [''index.html may only change content between CHAOS_START/CHAOS_END markers'']
          else []) @
         feed (starttags e) head_region @
         (if ''chaos-board/assets/chaos.css'' \<in> set files then validate_css_scoping css else [])
     \<and> (''index.html may only change content between CHAOS_START/CHAOS_END markers'' \<in> set (errors r)
          \<longleftrightarrow> base_before \<noteq> head_before \<or> base_after \<noteq> head_after)
     \<and> set (feed (starttags e) head_region) \<subseteq> set (errors r)"
proof -
  let ?msg = "''index.html may only change content between CHAOS_START/CHAOS_END markers''"
  let ?reg = "if base_before \<noteq> head_before \<or> base_after \<noteq> head_after then [?msg] else []"
  let ?css = "if ''chaos-board/assets/chaos.css'' \<in> set files then validate_css_scoping css else []"
  from changed base head sb sh
  have h: "html_errors e base_ref files = Inr (?reg @ feed (starttags e) head_region)"
    by (simp add: html_errors_def region_errors_def)
  note v = validate_unfold [OF files h css_errors_read [OF css]]
  have no: "?msg \<notin> set (allow_list_errors files)" "?msg \<notin> set (feed (starttags e) head_region)"
    "?msg \<notin> set ?css"
    using allow_list_errors_hd [of ?msg files] feed_hd [of ?msg "starttags e" head_region]
      validate_css_scoping_hd [of ?msg css]
    by (auto split: if_splits)
  have mem: "?msg \<in> set (allow_list_errors files @ (?reg @ feed (starttags e) head_region) @ ?css)
      \<longleftrightarrow> base_before \<noteq> head_before \<or> base_after \<noteq> head_after"
    using no by (auto split: if_splits)
  let ?errs = "allow_list_errors files @ (?reg @ feed (starttags e) head_region) @ ?css"
  let ?r = "\<lparr>ok = (?errs = []), errors = ?errs\<rparr>"
  have sel: "errors ?r = ?errs" by simp
  have 1: "validate e base_ref = Inr ?r" by (rule v)
  have 2: "errors ?r = allow_list_errors files @ ?reg @ feed (starttags e) head_region @ ?css"
    by simp
  have 3: "?msg \<in> set (errors ?r) \<longleftrightarrow> base_before \<noteq> head_before \<or> base_after \<noteq> head_after"
    by (simp only: sel mem)
  have 4: "set (feed (starttags e) head_region) \<subseteq> set (errors ?r)"
    by (simp only: sel) auto
  from 1 2 3 4 show ?thesis by blast
qed

theorem validate_region_ok_witness:
  "\<exists>r. validate
         \<lparr>changed_files = (\<lambda>b. Some [''chaos-board/index.html'', ''chaos-board/assets/chaos.css'']),
          read_file_at_ref = (\<lambda>r p. Some ''x<!-- CHAOS_START -->old<!-- CHAOS_END -->y''),
          read_worktree = (\<lambda>p. if p = ''chaos-board/index.html''
                                then Some ''x<!-- CHAOS_START --><b onclick=f><!-- CHAOS_END -->z''
                                else Some ''h1 { color: red; }''),
          starttags = (\<lambda>h. if h = ''<b onclick=f>''
                            then [(''b'', [(''onclick'', Some ''f'')])] else [])\<rparr>
         ''main'' = Inr r
     \<and> errors r =
         [''index.html may only change content between CHAOS_START/CHAOS_END markers'',
          ''Inline event handler attribute not allowed: b[onclick]'',
          ''All selectors must start with .chaos-region: h1'']"
proof -
  let ?e = "\<lparr>changed_files = (\<lambda>b. Some [''chaos-board/index.html'', ''chaos-board/assets/chaos.css'']),
          read_file_at_ref = (\<lambda>r p. Some ''x<!-- CHAOS_START -->old<!-- CHAOS_END -->y''),
          read_worktree = (\<lambda>p. if p = ''chaos-board/index.html''
                                then Some ''x<!-- CHAOS_START --><b onclick=f><!-- CHAOS_END -->z''
                                else Some ''h1 { color: red; }''),
          starttags = (\<lambda>h. if h = ''<b onclick=f>''
                            then [(''b'', [(''onclick'', Some ''f'')])] else [])\<rparr>"
  let ?files = "[''chaos-board/index.html'', ''chaos-board/assets/chaos.css'']"
  have files: "changed_files ?e ''main'' = Some ?files" by simp
  have changed: "''chaos-board/index.html'' \<in> set ?files" by simp
  have base: "read_file_at_ref ?e (''origin/'' @ ''main'') ''chaos-board/index.html''
      = Some ''x<!-- CHAOS_START -->old<!-- CHAOS_END -->y''" by simp
  have head: "read_worktree ?e ''chaos-board/index.html''
      = Some ''x<!-- CHAOS_START --><b onclick=f><!-- CHAOS_END -->z''" by simp
  have sb: "split_chaos_region ''x<!-- CHAOS_START -->old<!-- CHAOS_END -->y''
      = Inr (''x<!-- CHAOS_START -->'', ''old'', ''<!-- CHAOS_END -->y'')"
    by (simp add: split_chaos_region_def CHAOS_START_def CHAOS_END_def
        slice_def slice_to_def slice_from_def)
  have sh: "split_chaos_region ''x<!-- CHAOS_START --><b onclick=f><!-- CHAOS_END -->z''
      = Inr (''x<!-- CHAOS_START -->'', ''<b onclick=f>'', ''<!-- CHAOS_END -->z'')"
    by (simp add: split_chaos_region_def CHAOS_START_def CHAOS_END_def
        slice_def slice_to_def slice_from_def)
  have css: "''chaos-board/assets/chaos.css'' \<in> set ?files
      \<longrightarrow> read_worktree ?e ''chaos-board/assets/chaos.css'' = Some ''h1 { color: red; }''"
    by simp
  have al: "allow_list_errors ?files = []"
    by (simp add: allow_list_errors_def ALLOWED_CHANGED_FILES_def)
  have fd: "feed (starttags ?e) ''<b onclick=f>''
      = [''Inline event handler attribute not allowed: b[onclick]'']"
    by (simp add: feed_def handle_starttag_def event_handler_errors_def py_eval)
  have cs: "validate_css_scoping ''h1 { color: red; }''
      = [''All selectors must start with .chaos-region: h1'']"
    by (simp add: css_eval)
  from validate_region_ok [OF files changed base head sb sh css]
  obtain r where "validate ?e ''main'' = Inr r"
    and "errors r =
         allow_list_errors ?files @
         (if ''x<!-- CHAOS_START -->'' \<noteq> ''x<!-- CHAOS_START -->''
             \<or> ''<!-- CHAOS_END -->y'' \<noteq> ''<!-- CHAOS_END -->z''
          then [''index.html may only change content between CHAOS_START/CHAOS_END markers'']
          else []) @
         feed (starttags ?e) ''<b onclick=f>'' @
         (if ''chaos-board/assets/chaos.css'' \<in> set ?files
          then validate_css_scoping ''h1 { color: red; }'' else [])"
    by blast
  then show ?thesis
    unfolding al fd cs by simp
qed

text \<open>
  Claim C8. When the HTML target is in the change set, both documents are read and one
  of the two splits raises, the run still returns a result: a failure, in which the HTML
  step contributes the malformed-region message once and nothing else, and the CSS check,
  when the CSS target is in the change set, runs and contributes its messages behind it.
\<close>

theorem validate_region_malformed:
  assumes files: "changed_files e base_ref = Some files"
    and changed: "''chaos-board/index.html'' \<in> set files"
    and base: "read_file_at_ref e (''origin/'' @ base_ref) ''chaos-board/index.html'' = Some base_html"
    and head: "read_worktree e ''chaos-board/index.html'' = Some head_html"
    and bad: "(\<exists>x. split_chaos_region base_html = Inl x) \<or> (\<exists>x. split_chaos_region head_html = Inl x)"
    and css: "''chaos-board/assets/chaos.css'' \<in> set files
              \<longrightarrow> read_worktree e ''chaos-board/assets/chaos.css'' = Some css"
  shows "\<exists>r. validate e base_ref = Inr r
     \<and> \<not> ok r
     \<and> errors r =
         allow_list_errors files @
         [''Missing or misordered chaos markers''] @
         (if ''chaos-board/assets/chaos.css'' \<in> set files then validate_css_scoping css else [])"
proof -
  have "region_errors (starttags e) base_html head_html = Inr [''Missing or misordered chaos markers'']"
  proof (cases "split_chaos_region base_html")
    case (Inl x)
    with split_chaos_region_Inl [OF Inl] show ?thesis
      by (simp add: region_errors_def)
  next
    case (Inr t)
    with bad obtain x where x: "split_chaos_region head_html = Inl x" by auto
    obtain b r a where t: "t = (b, r, a)" by (cases t)
    from Inr t x split_chaos_region_Inl [OF x] show ?thesis
      by (simp add: region_errors_def)
  qed
  with changed base head
  have h: "html_errors e base_ref files = Inr [''Missing or misordered chaos markers'']"
    by (simp add: html_errors_def)
  show ?thesis
    unfolding validate_unfold [OF files h css_errors_read [OF css]] by simp
qed

theorem validate_region_malformed_witness:
  "\<exists>r. validate
         \<lparr>changed_files = (\<lambda>b. Some [''chaos-board/index.html'', ''chaos-board/assets/chaos.css'']),
          read_file_at_ref = (\<lambda>r p. Some ''x<!-- CHAOS_START -->old<!-- CHAOS_END -->y''),
          read_worktree = (\<lambda>p. if p = ''chaos-board/index.html''
                                then Some ''x<!-- CHAOS_END --><b onclick=f><!-- CHAOS_START -->y''
                                else Some ''h1 { color: red; }''),
          starttags = (\<lambda>h. if h = ''<b onclick=f>''
                            then [(''b'', [(''onclick'', Some ''f'')])] else [])\<rparr>
         ''main'' = Inr r
     \<and> \<not> ok r
     \<and> errors r =
         [''Missing or misordered chaos markers'',
          ''All selectors must start with .chaos-region: h1'']"
proof -
  let ?e = "\<lparr>changed_files = (\<lambda>b. Some [''chaos-board/index.html'', ''chaos-board/assets/chaos.css'']),
          read_file_at_ref = (\<lambda>r p. Some ''x<!-- CHAOS_START -->old<!-- CHAOS_END -->y''),
          read_worktree = (\<lambda>p. if p = ''chaos-board/index.html''
                                then Some ''x<!-- CHAOS_END --><b onclick=f><!-- CHAOS_START -->y''
                                else Some ''h1 { color: red; }''),
          starttags = (\<lambda>h. if h = ''<b onclick=f>''
                            then [(''b'', [(''onclick'', Some ''f'')])] else [])\<rparr>"
  let ?files = "[''chaos-board/index.html'', ''chaos-board/assets/chaos.css'']"
  have files: "changed_files ?e ''main'' = Some ?files" by simp
  have changed: "''chaos-board/index.html'' \<in> set ?files" by simp
  have base: "read_file_at_ref ?e (''origin/'' @ ''main'') ''chaos-board/index.html''
      = Some ''x<!-- CHAOS_START -->old<!-- CHAOS_END -->y''" by simp
  have head: "read_worktree ?e ''chaos-board/index.html''
      = Some ''x<!-- CHAOS_END --><b onclick=f><!-- CHAOS_START -->y''" by simp
  have "split_chaos_region ''x<!-- CHAOS_END --><b onclick=f><!-- CHAOS_START -->y''
      = Inl (ValueError ''Missing or misordered chaos markers'')"
    by (simp add: split_chaos_region_def CHAOS_START_def CHAOS_END_def)
  then have bad: "(\<exists>x. split_chaos_region ''x<!-- CHAOS_START -->old<!-- CHAOS_END -->y'' = Inl x)
      \<or> (\<exists>x. split_chaos_region ''x<!-- CHAOS_END --><b onclick=f><!-- CHAOS_START -->y'' = Inl x)"
    by blast
  have css: "''chaos-board/assets/chaos.css'' \<in> set ?files
      \<longrightarrow> read_worktree ?e ''chaos-board/assets/chaos.css'' = Some ''h1 { color: red; }''"
    by simp
  have al: "allow_list_errors ?files = []"
    by (simp add: allow_list_errors_def ALLOWED_CHANGED_FILES_def)
  have cs: "validate_css_scoping ''h1 { color: red; }''
      = [''All selectors must start with .chaos-region: h1'']"
    by (simp add: css_eval)
  from validate_region_malformed [OF files changed base head bad css]
  obtain r where "validate ?e ''main'' = Inr r" and "\<not> ok r"
    and "errors r =
         allow_list_errors ?files @
         [''Missing or misordered chaos markers''] @
         (if ''chaos-board/assets/chaos.css'' \<in> set ?files
          then validate_css_scoping ''h1 { color: red; }'' else [])"
    by blast
  then show ?thesis
    unfolding al cs by simp
qed

lemma validate_ok_iff: "validate e base_ref = Inr r \<Longrightarrow> ok r \<longleftrightarrow> errors r = []"
  by (auto simp: validate_def Let_def split: option.splits sum.splits)

text \<open>
  Claim C9. Every run that returns a result has \<open>ok\<close> exactly when its message list is
  empty. When the change set holds a path outside the allow list, every result is a
  failure whose list starts with the allow-list message and the message that joins
  exactly the illegal paths, in their order. The run does return when the reads of the
  two targets, where they are in the change set, succeed; the two messages differ, and
  the messages of the HTML step and of the CSS step follow them in this order.
\<close>

theorem validate_illegal_paths:
  "(\<forall>r. validate e base_ref = Inr r \<longrightarrow> (ok r \<longleftrightarrow> errors r = []))
   \<and> (\<forall>r. validate e base_ref = Inr r
          \<and> changed_files e base_ref = Some files
          \<and> (\<exists>f \<in> set files. f \<notin> set ALLOWED_CHANGED_FILES)
        \<longrightarrow> \<not> ok r
          \<and> take 2 (errors r) =
              [''Only these files may change: chaos-board/assets/chaos.css, chaos-board/index.html'',
               ''Illegal changed files: '' @
                  join '', '' (filter (\<lambda>f. f \<notin> set ALLOWED_CHANGED_FILES) files)])
   \<and> (changed_files e base_ref = Some files
      \<and> (\<exists>f \<in> set files. f \<notin> set ALLOWED_CHANGED_FILES)
      \<and> (''chaos-board/index.html'' \<in> set files
           \<longrightarrow> read_file_at_ref e (''origin/'' @ base_ref) ''chaos-board/index.html'' \<noteq> None
             \<and> read_worktree e ''chaos-board/index.html'' \<noteq> None)
      \<and> (''chaos-board/assets/chaos.css'' \<in> set files
           \<longrightarrow> read_worktree e ''chaos-board/assets/chaos.css'' \<noteq> None)
    \<longrightarrow> (\<exists>r herrs cerrs.
           validate e base_ref = Inr r
         \<and> \<not> ok r
         \<and> html_errors e base_ref files = Inr herrs
         \<and> css_errors e files = Inr cerrs
         \<and> errors r =
             [''Only these files may change: chaos-board/assets/chaos.css, chaos-board/index.html'',
              ''Illegal changed files: '' @
                 join '', '' (filter (\<lambda>f. f \<notin> set ALLOWED_CHANGED_FILES) files)]
             @ herrs @ cerrs
         \<and> ''Only these files may change: chaos-board/assets/chaos.css, chaos-board/index.html''
             \<noteq> ''Illegal changed files: '' @
                 join '', '' (filter (\<lambda>f. f \<notin> set ALLOWED_CHANGED_FILES) files)))"
proof -
  have main: "\<exists>r herrs cerrs.
           validate e base_ref = Inr r
         \<and> \<not> ok r
         \<and> html_errors e base_ref files = Inr herrs
         \<and> css_errors e files = Inr cerrs
         \<and> errors r =
             [''Only these files may change: chaos-board/assets/chaos.css, chaos-board/index.html'',
              ''Illegal changed files: '' @
                 join '', '' (filter (\<lambda>f. f \<notin> set ALLOWED_CHANGED_FILES) files)]
             @ herrs @ cerrs
         \<and> ''Only these files may change: chaos-board/assets/chaos.css, chaos-board/index.html''
             \<noteq> ''Illegal changed files: '' @
                 join '', '' (filter (\<lambda>f. f \<notin> set ALLOWED_CHANGED_FILES) files)"
    if files: "changed_files e base_ref = Some files"
      and illegal: "\<exists>f \<in> set files. f \<notin> set ALLOWED_CHANGED_FILES"
      and html: "''chaos-board/index.html'' \<in> set files
              \<longrightarrow> read_file_at_ref e (''origin/'' @ base_ref) ''chaos-board/index.html'' \<noteq> None
                \<and> read_worktree e ''chaos-board/index.html'' \<noteq> None"
      and css: "''chaos-board/assets/chaos.css'' \<in> set files
              \<longrightarrow> read_worktree e ''chaos-board/assets/chaos.css'' \<noteq> None"
  proof -
    have "\<exists>herrs. html_errors e base_ref files = Inr herrs"
    proof (cases "''chaos-board/index.html'' \<in> set files")
      case False
      then show ?thesis by (simp add: html_errors_def)
    next
      case True
      with html obtain b h where
        "read_file_at_ref e (''origin/'' @ base_ref) ''chaos-board/index.html'' = Some b"
        "read_worktree e ''chaos-board/index.html'' = Some h"
        by auto
      with True show ?thesis
        by (auto simp: html_errors_def region_errors_def
            split: sum.splits error.splits dest: split_chaos_region_Inl)
    qed
    then obtain herrs where h: "html_errors e base_ref files = Inr herrs" ..
    from css have "\<exists>cerrs. css_errors e files = Inr cerrs"
      by (auto simp: css_errors_def)
    then obtain cerrs where c: "css_errors e files = Inr cerrs" ..
    show ?thesis
      unfolding validate_unfold [OF files h c] allow_list_errors_illegal [OF illegal]
      using h c by simp
  qed
  have ret: "\<not> ok r
          \<and> take 2 (errors r) =
              [''Only these files may change: chaos-board/assets/chaos.css, chaos-board/index.html'',
               ''Illegal changed files: '' @
                  join '', '' (filter (\<lambda>f. f \<notin> set ALLOWED_CHANGED_FILES) files)]"
    if "validate e base_ref = Inr r" and "changed_files e base_ref = Some files"
      and illegal: "\<exists>f \<in> set files. f \<notin> set ALLOWED_CHANGED_FILES" for r
    using that(1,2)
    by (auto simp: validate_def Let_def allow_list_errors_illegal [OF illegal] split: sum.splits)
  from main ret validate_ok_iff show ?thesis by blast
qed

theorem validate_illegal_paths_witness:
  "\<exists>r. validate
         \<lparr>changed_files = (\<lambda>b. Some [''README.md'', ''chaos-board/assets/chaos.css'', ''tools/x.py'']),
          read_file_at_ref = (\<lambda>r p. None),
          read_worktree = (\<lambda>p. if p = ''chaos-board/assets/chaos.css''
                                then Some ''h1 { color: red; }'' else None),
          starttags = (\<lambda>h. [])\<rparr>
         ''main'' = Inr r
     \<and> \<not> ok r
     \<and> errors r =
         [''Only these files may change: chaos-board/assets/chaos.css, chaos-board/index.html'',
          ''Illegal changed files: README.md, tools/x.py'',
          ''All selectors must start with .chaos-region: h1'']"
proof -
  let ?e = "\<lparr>changed_files = (\<lambda>b. Some [''README.md'', ''chaos-board/assets/chaos.css'', ''tools/x.py'']),
          read_file_at_ref = (\<lambda>r p. None),
          read_worktree = (\<lambda>p. if p = ''chaos-board/assets/chaos.css''
                                then Some ''h1 { color: red; }'' else None),
          starttags = (\<lambda>h. [])\<rparr>"
  let ?files = "[''README.md'', ''chaos-board/assets/chaos.css'', ''tools/x.py'']"
  have hyp: "changed_files ?e ''main'' = Some ?files
      \<and> (\<exists>f \<in> set ?files. f \<notin> set ALLOWED_CHANGED_FILES)
      \<and> (''chaos-board/index.html'' \<in> set ?files
           \<longrightarrow> read_file_at_ref ?e (''origin/'' @ ''main'') ''chaos-board/index.html'' \<noteq> None
             \<and> read_worktree ?e ''chaos-board/index.html'' \<noteq> None)
      \<and> (''chaos-board/assets/chaos.css'' \<in> set ?files
           \<longrightarrow> read_worktree ?e ''chaos-board/assets/chaos.css'' \<noteq> None)"
    by (simp add: ALLOWED_CHANGED_FILES_def)
  have il: "filter (\<lambda>f. f \<notin> set ALLOWED_CHANGED_FILES) ?files = [''README.md'', ''tools/x.py'']"
    by (simp add: ALLOWED_CHANGED_FILES_def)
  have h: "html_errors ?e ''main'' ?files = Inr []"
    by (simp add: html_errors_def)
  have cs: "validate_css_scoping ''h1 { color: red; }''
      = [''All selectors must start with .chaos-region: h1'']"
    by (simp add: css_eval)
  have c: "css_errors ?e ?files = Inr [''All selectors must start with .chaos-region: h1'']"
    by (simp add: css_errors_def cs)
  from validate_illegal_paths [of ?e "''main''" ?files] hyp
  obtain r herrs cerrs where "validate ?e ''main'' = Inr r" and "\<not> ok r"
    and "html_errors ?e ''main'' ?files = Inr herrs"
    and "css_errors ?e ?files = Inr cerrs"
    and "errors r =
             [''Only these files may change: chaos-board/assets/chaos.css, chaos-board/index.html'',
              ''Illegal changed files: '' @
                 join '', '' (filter (\<lambda>f. f \<notin> set ALLOWED_CHANGED_FILES) ?files)]
             @ herrs @ cerrs"
    by blast
  then show ?thesis
    unfolding il h c by simp
qed

end
